theory Spec2Isabelle
  imports Main
begin

section \<open>Python values and the text operations the client uses\<close>

text \<open>
  The command-line client (\<^verbatim>\<open>onyx/cli.py\<close>) works on the values that
  \<^verbatim>\<open>requests.Response.json()\<close> decodes: \<^verbatim>\<open>None\<close>, booleans, integers, floats,
  strings, lists and dictionaries with string keys.  A dictionary keeps its insertion order,
  so it is an association list.  A float is carried by the text that \<^verbatim>\<open>float.__repr__\<close>
  prints for it.  A string is a list of characters with code points below 256.
\<close>

datatype json =
    JNull
  | JBool bool
  | JInt int
  | JFloat string
  | JString string
  | JArray "json list"
  | JObject "(string \<times> json) list"

type_synonym pydict = "(string \<times> json) list"

text \<open>The exceptions that leave the commands, each with its arguments.\<close>

datatype error =
    BadParameter string string
  | ClickException json
  | PyException string
  | KeyError string
  | TypeError
  | AttributeError
  | ValueError

text \<open>Truth value of a Python object, as \<^verbatim>\<open>if x:\<close> tests it.\<close>

fun truthy :: "json \<Rightarrow> bool" where
  "truthy JNull = False"
| "truthy (JBool b) = b"
| "truthy (JInt n) = (n \<noteq> 0)"
| "truthy (JFloat t) = (t \<noteq> ''0.0'' \<and> t \<noteq> ''-0.0'')"
| "truthy (JString s) = (s \<noteq> [])"
| "truthy (JArray xs) = (xs \<noteq> [])"
| "truthy (JObject kvs) = (kvs \<noteq> [])"

text \<open>\<^verbatim>\<open>obj[key]\<close> with a string key: only a dictionary can be subscripted so.\<close>

fun getitem :: "json \<Rightarrow> string \<Rightarrow> error + json" where
  "getitem (JObject kvs) k = (case map_of kvs k of None \<Rightarrow> Inl (KeyError k) | Some v \<Rightarrow> Inr v)"
| "getitem _ k = Inl TypeError"

text \<open>\<^verbatim>\<open>obj.get(key)\<close>: the value, or \<^verbatim>\<open>None\<close>; a method of dictionaries only.\<close>

fun py_get :: "json \<Rightarrow> string \<Rightarrow> error + json" where
  "py_get (JObject kvs) k = (case map_of kvs k of None \<Rightarrow> Inr JNull | Some v \<Rightarrow> Inr v)"
| "py_get _ k = Inl AttributeError"

definition NL :: char where
  "NL = CHR 0x0A"

definition CR :: char where
  "CR = CHR 0x0D"

definition TAB :: char where
  "TAB = CHR 0x09"

definition DQUOTE :: char where
  "DQUOTE = CHR 0x22"

definition BACKSLASH :: char where
  "BACKSLASH = CHR 0x5C"

text \<open>\<^verbatim>\<open>sep.join(parts)\<close>.\<close>

fun join :: "string \<Rightarrow> string list \<Rightarrow> string" where
  "join sep [] = []"
| "join sep [x] = x"
| "join sep (x # y # ys) = x @ sep @ join sep (y # ys)"

text \<open>\<^verbatim>\<open>s.startswith(p)\<close>, \<^verbatim>\<open>s.endswith(p)\<close>, \<^verbatim>\<open>s.removeprefix(p)\<close> and
  \<^verbatim>\<open>s.removesuffix(p)\<close>.\<close>

definition startswith :: "string \<Rightarrow> string \<Rightarrow> bool" where
  "startswith s p = (take (length p) s = p)"

definition endswith :: "string \<Rightarrow> string \<Rightarrow> bool" where
  "endswith s p = (length p \<le> length s \<and> drop (length s - length p) s = p)"

definition removeprefix :: "string \<Rightarrow> string \<Rightarrow> string" where
  "removeprefix s p = (if startswith s p then drop (length p) s else s)"

definition removesuffix :: "string \<Rightarrow> string \<Rightarrow> string" where
  "removesuffix s p = (if p \<noteq> [] \<and> endswith s p then take (length s - length p) s else s)"

text \<open>\<^verbatim>\<open>s.split(sep)\<close> for a separator of one character: every occurrence splits.\<close>

fun py_split :: "char \<Rightarrow> string \<Rightarrow> string list" where
  "py_split c [] = [[]]"
| "py_split c (x # xs) =
     (if x = c then [] # py_split c xs
      else (let ps = py_split c xs in (x # hd ps) # tl ps))"

text \<open>\<^verbatim>\<open>s.replace(".", "__")\<close>.\<close>

fun replace_dots :: "string \<Rightarrow> string" where
  "replace_dots [] = []"
| "replace_dots (x # xs) = (if x = CHR ''.'' then ''__'' @ replace_dots xs else x # replace_dots xs)"

subsection \<open>Decimal text of an integer\<close>

definition digit :: "nat \<Rightarrow> char" where
  "digit d = ''0123456789abcdef'' ! d"

function nat_repr :: "nat \<Rightarrow> string" where
  "nat_repr n = (if n < 10 then [digit n] else nat_repr (n div 10) @ [digit (n mod 10)])"
  by pat_completeness auto
termination
  by (relation "measure id") auto

definition int_repr :: "int \<Rightarrow> string" where
  "int_repr i = (if i < 0 then CHR ''-'' # nat_repr (nat (- i)) else nat_repr (nat i))"

subsection \<open>\<^verbatim>\<open>json.dumps(value, indent=4)\<close>\<close>

text \<open>
  The encoder of Python's \<^verbatim>\<open>json\<close> module with its defaults and \<^verbatim>\<open>indent=4\<close>:
  strings are escaped to ASCII, an empty list or dictionary is \<^verbatim>\<open>[]\<close> or \<^verbatim>\<open>{}\<close>, and a
  non-empty one puts every element on a line of its own, four spaces deeper than the
  bracket that closes it, with \<^verbatim>\<open>,\<close> after each element but the last.
\<close>

definition escape_char :: "char \<Rightarrow> string" where
  "escape_char c =
     (if c = DQUOTE then [BACKSLASH, DQUOTE]
      else if c = BACKSLASH then [BACKSLASH, BACKSLASH]
      else if c = NL then [BACKSLASH, CHR ''n'']
      else if c = CR then [BACKSLASH, CHR ''r'']
      else if c = TAB then [BACKSLASH, CHR ''t'']
      else if c = CHR 0x08 then [BACKSLASH, CHR ''b'']
      else if c = CHR 0x0C then [BACKSLASH, CHR ''f'']
      else if 32 \<le> (of_char c :: nat) \<and> (of_char c :: nat) \<le> 126 then [c]
      else [BACKSLASH, CHR ''u'', CHR ''0'', CHR ''0'',
            digit ((of_char c :: nat) div 16), digit ((of_char c :: nat) mod 16)])"

definition encode_basestring_ascii :: "string \<Rightarrow> string" where
  "encode_basestring_ascii s = DQUOTE # concat (map escape_char s) @ [DQUOTE]"

definition floatstr :: "string \<Rightarrow> string" where
  "floatstr t =
     (if t = ''nan'' then ''NaN''
      else if t = ''inf'' then ''Infinity''
      else if t = ''-inf'' then ''-Infinity''
      else t)"

definition newline_indent :: "nat \<Rightarrow> string" where
  "newline_indent level = NL # replicate (4 * level) CHR '' ''"

fun iterencode :: "nat \<Rightarrow> json \<Rightarrow> string" where
  "iterencode level JNull = ''null''"
| "iterencode level (JBool b) = (if b then ''true'' else ''false'')"
| "iterencode level (JInt n) = int_repr n"
| "iterencode level (JFloat t) = floatstr t"
| "iterencode level (JString s) = encode_basestring_ascii s"
| "iterencode level (JArray xs) =
     (if xs = [] then ''[]''
      else ''['' @ newline_indent (Suc level)
           @ join (CHR '','' # newline_indent (Suc level)) (map (iterencode (Suc level)) xs)
           @ newline_indent level @ '']'')"
| "iterencode level (JObject kvs) =
     (if kvs = [] then ''{}''
      else ''{'' @ newline_indent (Suc level)
           @ join (CHR '','' # newline_indent (Suc level))
               (map (\<lambda>(k, v). encode_basestring_ascii k @ '': '' @ iterencode (Suc level) v) kvs)
           @ newline_indent level @ ''}'')"

definition dumps :: "json \<Rightarrow> string" where
  "dumps v = iterencode 0 v"

section \<open>Responses, standard output and outcomes\<close>

text \<open>
  A \<^verbatim>\<open>requests.Response\<close> as the commands read it: the flag \<^verbatim>\<open>ok\<close>, the body
  \<^verbatim>\<open>text\<close>, and what \<^verbatim>\<open>json()\<close> returns for that body (\<open>None\<close> when it raises
  \<^verbatim>\<open>JSONDecodeError\<close>).
\<close>

record response =
  resp_ok :: bool
  resp_text :: string
  resp_json :: "json option"

text \<open>
  What a run of a command leaves behind: the text written to standard output, the number of
  items pulled from the client's generator (each page pulled is one HTTP request), and the
  exception that ended the run, if one did.
\<close>

record outcome =
  stdout :: string
  pulled :: nat
  raised :: "error option"

definition start :: outcome where
  "start = \<lparr>stdout = [], pulled = 0, raised = None\<rparr>"

text \<open>\<^verbatim>\<open>typer.echo(message)\<close> writes the message and a newline.\<close>

definition echo :: "string \<Rightarrow> outcome \<Rightarrow> outcome" where
  "echo message st = st\<lparr>stdout := stdout st @ message @ [NL]\<rparr>"

section \<open>\<^verbatim>\<open>cli_error\<close>\<close>

text \<open>
  \<^verbatim>\<open>cli_error\<close> always raises; the model returns the exception.  Only
  \<^verbatim>\<open>JSONDecodeError\<close> is caught: a missing \<^verbatim>\<open>"messages"\<close> key or a body that is not a
  dictionary leaves as \<^verbatim>\<open>KeyError\<close>, \<^verbatim>\<open>TypeError\<close> or \<^verbatim>\<open>AttributeError\<close>.
\<close>

definition cli_error :: "response \<Rightarrow> error" where
  "cli_error response =
     (case resp_json response of
        None \<Rightarrow> ClickException (JString (resp_text response))
      | Some body \<Rightarrow>
          (case getitem body ''messages'' of
             Inl e \<Rightarrow> e
           | Inr messages \<Rightarrow>
               (case py_get messages ''detail'' of
                  Inl e \<Rightarrow> e
                | Inr detail \<Rightarrow>
                    if truthy detail then ClickException detail
                    else ClickException (JString (dumps messages)))))"

section \<open>\<^verbatim>\<open>add_fields\<close>\<close>

text \<open>
  The value of one entry of the field specification: the keys \<^verbatim>\<open>required\<close> and
  \<^verbatim>\<open>type\<close>, and the keys that may be absent, \<^verbatim>\<open>description\<close>, \<^verbatim>\<open>values\<close> and
  \<^verbatim>\<open>fields\<close>.  The table is the list of its rows, a row the list of its five cells.
\<close>

datatype field_info =
  FieldInfo (fi_required: bool) (fi_type: string) (fi_description: "string option")
    (fi_values: "string list option") (fi_fields: "(string \<times> field_info) list option")

definition field_cell :: "string option \<Rightarrow> string \<Rightarrow> string" where
  "field_cell prefix field =
     (case prefix of
        None \<Rightarrow> field
      | Some p \<Rightarrow> if p \<noteq> [] then ''[dim]'' @ p @ ''.'' @ field @ ''[/dim]'' else field)"

definition child_prefix :: "string option \<Rightarrow> string \<Rightarrow> string" where
  "child_prefix prefix field =
     (case prefix of
        None \<Rightarrow> field
      | Some p \<Rightarrow> if p \<noteq> [] then p @ ''.'' @ field else field)"

definition field_row :: "string option \<Rightarrow> string \<Rightarrow> field_info \<Rightarrow> string list" where
  "field_row prefix field field_info =
     [field_cell prefix field,
      if fi_required field_info then ''[bold red]required[/]'' else ''[bold cyan]optional[/]'',
      fi_type field_info,
      (case fi_description field_info of None \<Rightarrow> [] | Some d \<Rightarrow> d),
      (case fi_values field_info of
         None \<Rightarrow> []
       | Some vs \<Rightarrow> if vs \<noteq> [] then join '', '' vs else [])]"

fun add_fields ::
  "string list list \<Rightarrow> (string \<times> field_info) list \<Rightarrow> string option \<Rightarrow> error + string list list"
where
  "add_fields table [] prefix = Inr table"
| "add_fields table ((field, FieldInfo req ty desc vals flds) # rest) prefix =
     (let table1 = table @ [field_row prefix field (FieldInfo req ty desc vals flds)] in
      if ty = ''relation'' then
        (case flds of
           None \<Rightarrow> Inl (KeyError ''fields'')
         | Some sub \<Rightarrow>
             (case add_fields table1 sub (Some (child_prefix prefix field)) of
                Inl e \<Rightarrow> Inl e
              | Inr table2 \<Rightarrow> add_fields table2 rest prefix))
      else add_fields table1 rest prefix)"

section \<open>The \<^verbatim>\<open>filter\<close> command\<close>

subsection \<open>Criteria given with \<^verbatim>\<open>-f\<close> / \<^verbatim>\<open>--field\<close>\<close>

text \<open>\<^verbatim>\<open>fields.setdefault(name, []).append(value)\<close> on a dictionary in insertion order.\<close>

fun setdefault_append ::
  "string \<Rightarrow> string \<Rightarrow> (string \<times> string list) list \<Rightarrow> (string \<times> string list) list"
where
  "setdefault_append name v [] = [(name, [v])]"
| "setdefault_append name v ((k, vs) # kvs) =
     (if k = name then (k, vs @ [v]) # kvs else (k, vs) # setdefault_append name v kvs)"

text \<open>
  The loop over the criteria.  Unpacking \<^verbatim>\<open>name, value = name_value.split("=")\<close>
  raises \<^verbatim>\<open>ValueError\<close> unless the split has exactly two parts, and the handler turns that
  into \<^verbatim>\<open>click.BadParameter\<close>.
\<close>

definition SQUOTE :: char where
  "SQUOTE = CHR 0x27"

definition syntax_message :: string where
  "syntax_message = SQUOTE # ''name=value'' @ SQUOTE # '' syntax was not used''"

definition param_hint :: string where
  "param_hint = SQUOTE # ''-f'' @ SQUOTE # '' / '' @ SQUOTE # ''--field'' @ [SQUOTE]"

fun add_criteria ::
  "string list \<Rightarrow> (string \<times> string list) list \<Rightarrow> error + (string \<times> string list) list"
where
  "add_criteria [] fs = Inr fs"
| "add_criteria (name_value # others) fs =
     (case py_split CHR ''='' name_value of
        [name, v] \<Rightarrow> add_criteria others (setdefault_append (replace_dots name) v fs)
      | _ \<Rightarrow> Inl (BadParameter syntax_message param_hint))"

definition filter_fields :: "string list option \<Rightarrow> error + (string \<times> string list) list" where
  "filter_fields field =
     (case field of
        None \<Rightarrow> Inr []
      | Some criteria \<Rightarrow> if criteria \<noteq> [] then add_criteria criteria [] else Inr [])"

subsection \<open>JSON output\<close>

definition strip_start :: "json \<Rightarrow> string \<Rightarrow> error + string" where
  "strip_start previous rendered_response =
     (if truthy previous then
        (if \<not> startswith rendered_response [CHR ''['', NL]
         then Inl (PyException ''Response JSON has invalid start character(s).'')
         else Inr (removeprefix rendered_response [CHR ''['', NL]))
      else Inr rendered_response)"

definition strip_end :: "json \<Rightarrow> string \<Rightarrow> error + string" where
  "strip_end nxt rendered_response =
     (if truthy nxt then
        (if \<not> endswith rendered_response [CHR ''}'', NL, CHR '']'']
         then Inl (PyException ''Response JSON has invalid end character(s).'')
         else Inr (removesuffix rendered_response [CHR ''}'', NL, CHR '']''] @ ''},''))
      else Inr rendered_response)"

text \<open>The body of the \<^verbatim>\<open>try\<close> for one decoded page, up to the text given to \<^verbatim>\<open>typer.echo\<close>.\<close>

definition render_page :: "json \<Rightarrow> error + string" where
  "render_page result_json =
     (case getitem result_json ''data'' of
        Inl e \<Rightarrow> Inl e
      | Inr data \<Rightarrow>
          (case getitem result_json ''previous'' of
             Inl e \<Rightarrow> Inl e
           | Inr previous \<Rightarrow>
               (case strip_start previous (dumps data) of
                  Inl e \<Rightarrow> Inl e
                | Inr rendered_response \<Rightarrow>
                    (case getitem result_json ''next'' of
                       Inl e \<Rightarrow> Inl e
                     | Inr nxt \<Rightarrow> strip_end nxt rendered_response))))"

text \<open>
  The loop \<^verbatim>\<open>for result in results\<close>.  The list holds the responses the generator would
  yield, in order; the loop pulls them one at a time and stops at the first exception.
\<close>

fun json_loop :: "response list \<Rightarrow> outcome \<Rightarrow> outcome" where
  "json_loop [] st = st"
| "json_loop (result # results) st =
     (let st1 = st\<lparr>pulled := Suc (pulled st)\<rparr> in
      if resp_ok result then
        (case resp_json result of
           None \<Rightarrow> st1\<lparr>raised := Some (ClickException (JString (resp_text result)))\<rparr>
         | Some result_json \<Rightarrow>
             (case render_page result_json of
                Inl e \<Rightarrow> st1\<lparr>raised := Some e\<rparr>
              | Inr rendered_response \<Rightarrow> json_loop results (echo rendered_response st1)))
      else st1\<lparr>raised := Some (cli_error result)\<rparr>)"

subsection \<open>Delimited output\<close>

text \<open>
  \<^verbatim>\<open>csv.DictWriter\<close> with the default dialect (quote character \<^verbatim>\<open>"\<close>, minimal
  quoting, doubled quotes, line terminator \<^verbatim>\<open>\r\n\<close>, missing keys written as the empty
  string, extra keys refused).  The text of a list or dictionary cell is Python's
  \<^verbatim>\<open>repr\<close> of it, which is the parameter \<open>repr\<close>.
\<close>

record writer =
  delimiter :: char
  fieldnames :: "string list"

definition cell_text :: "(json \<Rightarrow> string) \<Rightarrow> json \<Rightarrow> string" where
  "cell_text repr v =
     (case v of
        JNull \<Rightarrow> []
      | JString s \<Rightarrow> s
      | JBool b \<Rightarrow> (if b then ''True'' else ''False'')
      | JInt n \<Rightarrow> int_repr n
      | JFloat t \<Rightarrow> t
      | _ \<Rightarrow> repr v)"

definition needs_quotes :: "char \<Rightarrow> string \<Rightarrow> bool" where
  "needs_quotes delim s = list_ex (\<lambda>c. c = delim \<or> c = DQUOTE \<or> c = CR \<or> c = NL) s"

definition quote_field :: "char \<Rightarrow> string \<Rightarrow> string" where
  "quote_field delim s =
     (if needs_quotes delim s
      then DQUOTE # concat (map (\<lambda>c. if c = DQUOTE then [DQUOTE, DQUOTE] else [c]) s) @ [DQUOTE]
      else s)"

definition csv_line :: "char \<Rightarrow> string list \<Rightarrow> string" where
  "csv_line delim cells =
     (if cells = [[]] then [DQUOTE, DQUOTE] else join [delim] (map (quote_field delim) cells))
     @ [CR, NL]"

definition dict_to_list :: "writer \<Rightarrow> pydict \<Rightarrow> error + json list" where
  "dict_to_list w rowdict =
     (if list_ex (\<lambda>k. k \<notin> set (fieldnames w)) (map fst rowdict) then Inl ValueError
      else Inr (map (\<lambda>key. case map_of rowdict key of None \<Rightarrow> JString [] | Some v \<Rightarrow> v)
                  (fieldnames w)))"

definition writerow :: "(json \<Rightarrow> string) \<Rightarrow> writer \<Rightarrow> pydict \<Rightarrow> outcome \<Rightarrow> error + outcome" where
  "writerow repr w rowdict st =
     (case dict_to_list w rowdict of
        Inl e \<Rightarrow> Inl e
      | Inr row \<Rightarrow>
          Inr (st\<lparr>stdout := stdout st @ csv_line (delimiter w) (map (cell_text repr) row)\<rparr>))"

definition writeheader :: "(json \<Rightarrow> string) \<Rightarrow> writer \<Rightarrow> outcome \<Rightarrow> error + outcome" where
  "writeheader repr w st = writerow repr w (map (\<lambda>k. (k, JString k)) (fieldnames w)) st"

text \<open>
  The generator \<^verbatim>\<open>api.client.filter(...)\<close> as one run of it: the records it yields, in
  order, and the response of the \<^verbatim>\<open>OnyxError\<close> that ends it, if one does.
\<close>

type_synonym records = "pydict list \<times> response option"

text \<open>The loop \<^verbatim>\<open>for record in records: writer.writerow(record)\<close>, inside the \<^verbatim>\<open>try\<close>.\<close>

fun write_rows ::
  "(json \<Rightarrow> string) \<Rightarrow> writer \<Rightarrow> pydict list \<Rightarrow> response option \<Rightarrow> outcome \<Rightarrow> outcome"
where
  "write_rows repr w [] ending st =
     (case ending of None \<Rightarrow> st | Some response \<Rightarrow> st\<lparr>raised := Some (cli_error response)\<rparr>)"
| "write_rows repr w (record # others) ending st =
     (let st1 = st\<lparr>pulled := Suc (pulled st)\<rparr> in
      case writerow repr w record st1 of
        Inl e \<Rightarrow> st1\<lparr>raised := Some e\<rparr>
      | Inr st2 \<Rightarrow> write_rows repr w others ending st2)"

datatype Formats = JSON | CSV | TSV

definition delimited :: "(json \<Rightarrow> string) \<Rightarrow> Formats option \<Rightarrow> records \<Rightarrow> outcome \<Rightarrow> outcome" where
  "delimited repr format recs st =
     (case fst recs of
        [] \<Rightarrow>
          (case snd recs of
             None \<Rightarrow> st
           | Some response \<Rightarrow> st\<lparr>raised := Some (cli_error response)\<rparr>)
      | record # others \<Rightarrow>
          (let st1 = st\<lparr>pulled := Suc (pulled st)\<rparr> in
           if record \<noteq> [] then
             (let w = \<lparr>delimiter = (if format = Some TSV then TAB else CHR '',''),
                       fieldnames = map fst record\<rparr> in
              case writeheader repr w st1 of
                Inl e \<Rightarrow> st1\<lparr>raised := Some e\<rparr>
              | Inr st2 \<Rightarrow>
                  (case writerow repr w record st2 of
                     Inl e \<Rightarrow> st2\<lparr>raised := Some e\<rparr>
                   | Inr st3 \<Rightarrow> write_rows repr w others (snd recs) st3))
           else st1))"

subsection \<open>The command\<close>

text \<open>
  The client is the server seen through \<^verbatim>\<open>OnyxClient\<close>: for the arguments of a query, the
  responses that the raw generator yields and the run of the record generator.  The command
  is taken from the point where \<^verbatim>\<open>setup_onyx_api\<close> has returned this client; the
  generators are finite and raise nothing but the \<^verbatim>\<open>OnyxError\<close> of a failed page.
\<close>

record query =
  q_project :: string
  q_fields :: "(string \<times> string list) list"
  q_include :: "string list option"
  q_exclude :: "string list option"
  q_scope :: "string list option"

record client =
  raw_filter :: "query \<Rightarrow> response list"
  record_filter :: "query \<Rightarrow> records"

definition filter_cmd ::
  "(json \<Rightarrow> string) \<Rightarrow> client \<Rightarrow> string \<Rightarrow> string list option \<Rightarrow> string list option \<Rightarrow>
   string list option \<Rightarrow> string list option \<Rightarrow> Formats option \<Rightarrow> outcome"
where
  "filter_cmd repr api project field include exclude scope format =
     (case filter_fields field of
        Inl e \<Rightarrow> start\<lparr>raised := Some e\<rparr>
      | Inr fs \<Rightarrow>
          (let q = \<lparr>q_project = project, q_fields = fs, q_include = include,
                    q_exclude = exclude, q_scope = scope\<rparr> in
           if format = Some JSON then json_loop (raw_filter api q) start
           else delimited repr format (record_filter api q) start))"

section \<open>The record generator, from the design\<close>

text \<open>
  Modelled from the spec: the Page of section 3 and the Record Stream of section 4.3, which
  \<^verbatim>\<open>OnyxClient.filter\<close> of \<^verbatim>\<open>onyx/api.py\<close> implements; that file is not among the
  sources.  The stream pulls the next page; a page with \<^verbatim>\<open>ok=false\<close> ends it with an error
  that carries the page's response; otherwise the records of \<^verbatim>\<open>body.data\<close> are yielded in
  order, and the stream goes on to the next page if \<^verbatim>\<open>has_next\<close> holds and ends otherwise.
\<close>

record page =
  page_ok :: bool
  page_data :: "pydict list"
  page_has_previous :: bool
  page_has_next :: bool
  page_response :: response

text \<open>
  Modelled from the spec: the run of the Record Stream of section 4.3 over the pages that the
  server would deliver, in the absence of \<^verbatim>\<open>onyx/api.py\<close>: the records yielded, and the
  response of the failed page if one ends the stream.
\<close>

fun record_stream :: "page list \<Rightarrow> records" where
  "record_stream [] = ([], None)"
| "record_stream (p # ps) =
     (if \<not> page_ok p then ([], Some (page_response p))
      else if page_has_next p
        then (page_data p @ fst (record_stream ps), snd (record_stream ps))
        else (page_data p, None))"

section \<open>Notions used to state the properties\<close>

subsection \<open>Pages of the JSON output\<close>

text \<open>
  The envelope of a successful page: the \<^verbatim>\<open>data\<close> array, and whether \<^verbatim>\<open>previous\<close> and
  \<^verbatim>\<open>next\<close> are set.
\<close>

definition page_view :: "response \<Rightarrow> (json list \<times> bool \<times> bool) option" where
  "page_view r =
     (if resp_ok r then
        (case resp_json r of
           Some (JObject kvs) \<Rightarrow>
             (case (map_of kvs ''data'', map_of kvs ''previous'', map_of kvs ''next'') of
                (Some (JArray xs), Some p, Some n) \<Rightarrow> Some (xs, truthy p, truthy n)
              | _ \<Rightarrow> None)
         | _ \<Rightarrow> None)
      else None)"

text \<open>
  A sequence of pages as the server cuts a result: every page is a successful envelope, a page
  has a previous page exactly if it is not the first, and a next page exactly if it is not the
  last.  The flag says whether a page comes before the sequence.
\<close>

fun paged :: "bool \<Rightarrow> response list \<Rightarrow> bool" where
  "paged hp [] = True"
| "paged hp (r # rs) =
     (case page_view r of
        None \<Rightarrow> False
      | Some (xs, p, n) \<Rightarrow> p = hp \<and> n = (rs \<noteq> []) \<and> paged True rs)"

fun is_object :: "json \<Rightarrow> bool" where
  "is_object (JObject kvs) = True"
| "is_object _ = False"

text \<open>
  A page fits the stitching if its array is not empty whenever it has a neighbour, and ends in
  an object whenever another page follows.
\<close>

definition fits :: "response \<Rightarrow> bool" where
  "fits r =
     (case page_view r of
        None \<Rightarrow> False
      | Some (xs, p, n) \<Rightarrow>
          (if n then xs \<noteq> [] \<and> is_object (last xs) else if p then xs \<noteq> [] else True))"

definition page_items :: "response \<Rightarrow> json list" where
  "page_items r = (case page_view r of None \<Rightarrow> [] | Some (xs, p, n) \<Rightarrow> xs)"

definition all_data :: "response list \<Rightarrow> json list" where
  "all_data rs = concat (map page_items rs)"

text \<open>The text of a page after the checks: prefix removed, suffix replaced.\<close>

definition stitched :: "json \<Rightarrow> json \<Rightarrow> string \<Rightarrow> string" where
  "stitched previous nxt t =
     (let t1 = (if truthy previous then drop 2 t else t)
      in if truthy nxt then take (length t1 - 3) t1 @ ''},'' else t1)"

subsection \<open>Criteria\<close>

text \<open>The part of a criterion before its first \<^verbatim>\<open>=\<close>, and the part after it.\<close>

definition name_of :: "string \<Rightarrow> string" where
  "name_of name_value = takeWhile (\<lambda>c. c \<noteq> CHR ''='') name_value"

definition value_of :: "string \<Rightarrow> string" where
  "value_of name_value = drop 1 (dropWhile (\<lambda>c. c \<noteq> CHR ''='') name_value)"

text \<open>The values given for a field of the query, in the order of the criteria.\<close>

definition values_for :: "string \<Rightarrow> string list \<Rightarrow> string list" where
  "values_for k criteria =
     map value_of (filter (\<lambda>name_value. replace_dots (name_of name_value) = k) criteria)"

text \<open>The elements of a list in the order of their first occurrences.\<close>

fun first_occurrences :: "'a list \<Rightarrow> 'a list" where
  "first_occurrences [] = []"
| "first_occurrences (x # xs) = x # filter (\<lambda>y. y \<noteq> x) (first_occurrences xs)"

subsection \<open>Rows of a field specification\<close>

text \<open>
  The rows that the design asks for: one row for each node, depth first, the row of a relation
  before the rows of its children; a top-level node shows its name, a nested node the dotted
  path from the top, marked as dimmed.
\<close>

definition path_row :: "string list \<Rightarrow> string \<Rightarrow> field_info \<Rightarrow> string list" where
  "path_row path field field_info =
     [if path = [] then field else ''[dim]'' @ join ''.'' (path @ [field]) @ ''[/dim]'',
      if fi_required field_info then ''[bold red]required[/]'' else ''[bold cyan]optional[/]'',
      fi_type field_info,
      (case fi_description field_info of None \<Rightarrow> [] | Some d \<Rightarrow> d),
      (case fi_values field_info of None \<Rightarrow> [] | Some vs \<Rightarrow> join '', '' vs)]"

fun tree_rows :: "string list \<Rightarrow> (string \<times> field_info) list \<Rightarrow> string list list" where
  "tree_rows path [] = []"
| "tree_rows path ((field, FieldInfo req ty desc vals flds) # rest) =
     path_row path field (FieldInfo req ty desc vals flds)
     # (if ty = ''relation''
        then (case flds of None \<Rightarrow> [] | Some sub \<Rightarrow> tree_rows (path @ [field]) sub)
        else [])
     @ tree_rows path rest"

text \<open>A relation has its children under \<^verbatim>\<open>fields\<close>.\<close>

fun relations_have_fields :: "(string \<times> field_info) list \<Rightarrow> bool" where
  "relations_have_fields [] = True"
| "relations_have_fields ((field, FieldInfo req ty desc vals flds) # rest) =
     ((if ty = ''relation''
       then (case flds of None \<Rightarrow> False | Some sub \<Rightarrow> relations_have_fields sub)
       else True)
      \<and> relations_have_fields rest)"

text \<open>No relation at the top level has the empty name.\<close>

definition top_relations_named :: "(string \<times> field_info) list \<Rightarrow> bool" where
  "top_relations_named tree =
     list_all (\<lambda>(field, field_info). fi_type field_info = ''relation'' \<longrightarrow> field \<noteq> []) tree"

subsection \<open>Example inputs\<close>

text \<open>The two records of the delimited example, one on each of two pages.\<close>

definition first_record :: pydict where
  "first_record = [(''a'', JString ''1''), (''b'', JString ''2'')]"

definition second_record :: pydict where
  "second_record = [(''a'', JString ''3''), (''b'', JString ''4'')]"

text \<open>A successful response whose body decodes to the envelope with the given entries.\<close>

definition envelope :: "json \<Rightarrow> json \<Rightarrow> json \<Rightarrow> response" where
  "envelope data previous nxt =
     \<lparr>resp_ok = True, resp_text = [],
      resp_json = Some (JObject [(''data'', data), (''previous'', previous), (''next'', nxt)])\<rparr>"

text \<open>A client of a server that has no page and no record for any query.\<close>

definition no_client :: client where
  "no_client = \<lparr>raw_filter = (\<lambda>q. []), record_filter = (\<lambda>q. ([], None))\<rparr>"

text \<open>
  The entry of a field after further values: an absent entry stays absent if no value is
  added, and the new values follow the old ones.
\<close>

definition merged :: "string list option \<Rightarrow> string list \<Rightarrow> string list option" where
  "merged old new =
     (case old of None \<Rightarrow> (if new = [] then None else Some new) | Some vs \<Rightarrow> Some (vs @ new))"

text \<open>Three criteria, two of them on the same nested field.\<close>

definition example_criteria :: "string list" where
  "example_criteria = [''a.b=1'', ''c=2'', ''a.b=3'']"

text \<open>An error response with the given body text and decoded body.\<close>

definition error_response :: "string \<Rightarrow> json option \<Rightarrow> response" where
  "error_response body decoded = \<lparr>resp_ok = False, resp_text = body, resp_json = decoded\<rparr>"

text \<open>An error response whose messages hold a detail entry that is the empty string.\<close>

definition empty_detail :: response where
  "empty_detail =
     error_response [] (Some (JObject [(''messages'', JObject [(''detail'', JString [])])]))"

text \<open>The prefix that \<^verbatim>\<open>add_fields\<close> is given below the nodes of a path.\<close>

definition path_prefix :: "string list \<Rightarrow> string option" where
  "path_prefix path = (if path = [] then None else Some (join ''.'' path))"

text \<open>
  The tree of the design's example: a text field, and a relation with one choice field.
\<close>

definition example_tree :: "(string \<times> field_info) list" where
  "example_tree =
     [(''sample_id'', FieldInfo True ''text'' None None None),
      (''collection'', FieldInfo False ''relation'' None None
         (Some [(''country'', FieldInfo True ''choice'' None (Some [''UK'', ''FR'']) None)]))]"

text \<open>A tree whose only top-level field is a relation with the empty name.\<close>

definition unnamed_relation :: "(string \<times> field_info) list" where
  "unnamed_relation =
     [([], FieldInfo False ''relation'' None None
         (Some [(''x'', FieldInfo True ''text'' None None None)]))]"

text \<open>
  The elements of an array as the encoder writes them at the top level, without the
  brackets and without the indentation of the first element.
\<close>

definition elements :: "json list \<Rightarrow> string" where
  "elements xs = join (CHR '','' # newline_indent 1) (map (iterencode 1) xs)"

text \<open>
  What is written for a page of a non-empty array: the opening bracket only on the first
  page, and after the elements a comma if a page follows and the closing bracket if not.
\<close>

definition fragment :: "bool \<Rightarrow> bool \<Rightarrow> json list \<Rightarrow> string" where
  "fragment p n xs =
     (if p then [] else [CHR ''['', NL]) @ ''    '' @ elements xs
     @ (if n then '','' else [NL, CHR '']''])"

text \<open>
  Pages with one empty record each, first and last of two, and a last page with no record.
\<close>

definition first_page :: response where
  "first_page = envelope (JArray [JObject []]) JNull (JString ''cursor'')"

definition last_page :: response where
  "last_page = envelope (JArray [JObject []]) (JString ''cursor'') JNull"

definition empty_last_page :: response where
  "empty_last_page = envelope (JArray []) (JString ''cursor'') JNull"

text \<open>An error response whose body is not JSON.\<close>

definition bad_gateway :: response where
  "bad_gateway = error_response ''Bad Gateway'' None"

text \<open>A successful first page with an empty array and a next page.\<close>

definition empty_first_page :: response where
  "empty_first_page = envelope (JArray []) JNull (JString ''cursor'')"

text \<open>A first page of the record stream with one record, and a failed second page.\<close>

definition first_records_page :: page where
  "first_records_page =
     \<lparr>page_ok = True, page_data = [first_record], page_has_previous = False,
      page_has_next = True, page_response = first_page\<rparr>"

definition failed_page :: page where
  "failed_page =
     \<lparr>page_ok = False, page_data = [], page_has_previous = True,
      page_has_next = False, page_response = bad_gateway\<rparr>"

section \<open>Properties of the delimited output\<close>

text \<open>
  Claim C6.  The records \<^verbatim>\<open>{"a":"1","b":"2"}\<close> and \<^verbatim>\<open>{"a":"3","b":"4"}\<close>, delivered on
  two pages with one record each, give the comma-delimited output
  \<^verbatim>\<open>a,b\r\n1,2\r\n3,4\r\n\<close>: the header is the key order of the first record, and the rows
  of both pages follow in page order under these columns.  Both records are pulled and no
  exception is raised.
\<close>

theorem csv_two_pages:
  "delimited repr (Some CSV)
     (record_stream
        [\<lparr>page_ok = True, page_data = [first_record], page_has_previous = False,
          page_has_next = True, page_response = r1\<rparr>,
         \<lparr>page_ok = True, page_data = [second_record], page_has_previous = True,
          page_has_next = False, page_response = r2\<rparr>])
     start
   = \<lparr>stdout = ''a,b'' @ [CR, NL] @ ''1,2'' @ [CR, NL] @ ''3,4'' @ [CR, NL],
      pulled = 2, raised = None\<rparr>"
  by (simp add: delimited_def start_def first_record_def second_record_def writeheader_def
        writerow_def dict_to_list_def csv_line_def quote_field_def needs_quotes_def
        cell_text_def DQUOTE_def CR_def NL_def)

text \<open>
  Claim C7.  When the record stream yields no record, whether it ends normally or with an
  error, the delimited renderer writes nothing to standard output: no header and no row.  The
  outcome is the initial one, with the error of the stream reported if there is one.
\<close>

theorem empty_stream_writes_nothing:
  "delimited repr format ([], ending) start
     = start\<lparr>raised := map_option cli_error ending\<rparr>"
  by (cases ending) (simp_all add: delimited_def start_def)

theorem empty_stream_writes_nothing_witness:
  "delimited (\<lambda>v. []) (Some CSV) ([], None) start
     = start\<lparr>raised := map_option cli_error None\<rparr>"
  by (rule empty_stream_writes_nothing)

text \<open>
  Claim C10.  When the first record pulled is the empty dictionary, the delimited renderer
  writes no header and no row, whatever records follow and however the stream ends: the test
  is the truth value of the first record.  Only that one record is pulled, and no exception
  is raised.
\<close>

theorem empty_first_record_writes_nothing:
  "delimited repr format ([] # others, ending) start = start\<lparr>pulled := 1\<rparr>"
  by (simp add: delimited_def start_def)

theorem empty_first_record_writes_nothing_witness:
  "delimited (\<lambda>v. []) (Some TSV) ([] # [first_record, second_record], None) start
     = start\<lparr>pulled := 1\<rparr>"
  by (rule empty_first_record_writes_nothing)

section \<open>Properties of the JSON output\<close>

lemma startswith_two: "startswith t [a, b] \<Longrightarrow> \<exists>r. t = a # b # r"
  by (cases t; cases "tl t") (auto simp: startswith_def)

lemma endswith_after_prefix:
  assumes "startswith t [a, b]" and "a \<noteq> x" and "b \<noteq> x"
  shows "endswith (drop 2 t) [x, y, z] = endswith t [x, y, z]"
proof -
  from assms(1) obtain r where t: "t = a # b # r"
    using startswith_two by blast
  show ?thesis
  proof (cases "3 \<le> length r")
    case True
    then have "drop (length r + 2 - 3) (a # b # r) = drop (length r - 3) r"
      by (simp add: drop_Cons' numeral_3_eq_3)
    with True show ?thesis
      by (simp add: t endswith_def numeral_3_eq_3)
  next
    case False
    then consider "r = []" | c where "r = [c]" | c d where "r = [c, d]"
      by (cases r; cases "tl r"; cases "tl (tl r)") auto
    then show ?thesis
      using assms(2,3) by cases (auto simp: t endswith_def)
  qed
qed

lemma strip_start_cases:
  "strip_start p t =
     (if truthy p \<and> \<not> startswith t [CHR ''['', NL]
      then Inl (PyException ''Response JSON has invalid start character(s).'')
      else Inr (if truthy p then drop 2 t else t))"
  by (simp add: strip_start_def removeprefix_def numeral_2_eq_2)

lemma strip_end_cases:
  "strip_end n t =
     (if truthy n \<and> \<not> endswith t [CHR ''}'', NL, CHR '']'']
      then Inl (PyException ''Response JSON has invalid end character(s).'')
      else Inr (if truthy n then take (length t - 3) t @ ''},'' else t))"
  by (simp add: strip_end_def removesuffix_def numeral_3_eq_3)

lemma render_page_cases:
  assumes "getitem j ''data'' = Inr d" and "getitem j ''previous'' = Inr p"
    and "getitem j ''next'' = Inr n"
  shows "render_page j =
     (if truthy p \<and> \<not> startswith (dumps d) [CHR ''['', NL]
      then Inl (PyException ''Response JSON has invalid start character(s).'')
      else if truthy n \<and> \<not> endswith (dumps d) [CHR ''}'', NL, CHR '']'']
      then Inl (PyException ''Response JSON has invalid end character(s).'')
      else Inr (stitched p n (dumps d)))"
proof -
  have e: "endswith (drop 2 (dumps d)) [CHR ''}'', NL, CHR '']'']
        = endswith (dumps d) [CHR ''}'', NL, CHR '']'']"
    if "startswith (dumps d) [CHR ''['', NL]"
    using endswith_after_prefix [OF that, of "CHR ''}''"] by (simp add: NL_def)
  show ?thesis
    using e by (auto simp: render_page_def assms strip_start_cases strip_end_cases stitched_def Let_def)
qed

text \<open>
  Claim C2.  Let a successful page decode to a body with the entries \<^verbatim>\<open>data\<close>,
  \<^verbatim>\<open>previous\<close> and \<^verbatim>\<open>next\<close>, and let the text be the indented rendering of its data.
  If \<^verbatim>\<open>previous\<close> is set and the text does not start with \<^verbatim>\<open>[\<close> and a newline, the run
  ends with a plain \<^verbatim>\<open>Exception\<close> (not the \<^verbatim>\<open>ClickException\<close> of an error report) and
  writes nothing for the page.  If \<^verbatim>\<open>next\<close> is set and the text does not end with
  \<^verbatim>\<open>}\<close>, newline, \<^verbatim>\<open>]\<close>, the run likewise ends with a plain \<^verbatim>\<open>Exception\<close>.
  Otherwise the text is written with the prefix removed (if \<^verbatim>\<open>previous\<close> is set) and the
  suffix replaced by \<^verbatim>\<open>},\<close> (if \<^verbatim>\<open>next\<close> is set), and the loop goes on.
\<close>

theorem stitching_checks:
  assumes "resp_ok result" and "resp_json result = Some j"
    and "getitem j ''data'' = Inr d" and "getitem j ''previous'' = Inr p"
    and "getitem j ''next'' = Inr n"
  shows "(truthy p \<and> \<not> startswith (dumps d) [CHR ''['', NL] \<longrightarrow>
            json_loop (result # results) st
              = st\<lparr>pulled := Suc (pulled st),
                   raised := Some (PyException
                     ''Response JSON has invalid start character(s).'')\<rparr>)
       \<and> (truthy n \<and> \<not> endswith (dumps d) [CHR ''}'', NL, CHR '']''] \<longrightarrow>
            json_loop (result # results) st
              = st\<lparr>pulled := Suc (pulled st),
                   raised := Some (PyException
                     (if truthy p \<and> \<not> startswith (dumps d) [CHR ''['', NL]
                      then ''Response JSON has invalid start character(s).''
                      else ''Response JSON has invalid end character(s).''))\<rparr>)
       \<and> (\<not> (truthy p \<and> \<not> startswith (dumps d) [CHR ''['', NL])
          \<and> \<not> (truthy n \<and> \<not> endswith (dumps d) [CHR ''}'', NL, CHR '']'']) \<longrightarrow>
            json_loop (result # results) st
              = json_loop results
                  (echo (stitched p n (dumps d)) (st\<lparr>pulled := Suc (pulled st)\<rparr>)))"
  using assms(1,2) render_page_cases [OF assms(3,4,5)]
  by (auto simp: Let_def)

theorem stitching_checks_witness:
  "json_loop [envelope (JArray []) (JString ''u'') JNull] start
     = start\<lparr>pulled := Suc (pulled start),
             raised := Some (PyException ''Response JSON has invalid start character(s).'')\<rparr>
   \<and> json_loop [envelope (JArray [JNull]) JNull (JString ''u'')] start
     = start\<lparr>pulled := Suc (pulled start),
             raised := Some (PyException ''Response JSON has invalid end character(s).'')\<rparr>
   \<and> json_loop [envelope (JArray [JObject []]) (JString ''u'') (JString ''u'')] start
     = json_loop []
         (echo (stitched (JString ''u'') (JString ''u'') (dumps (JArray [JObject []])))
            (start\<lparr>pulled := Suc (pulled start)\<rparr>))"
proof -
  have a: "truthy (JString ''u'') \<and> \<not> startswith (dumps (JArray [])) [CHR ''['', NL]"
    by (simp add: dumps_def startswith_def NL_def)
  have b: "truthy (JString ''u'')
      \<and> \<not> endswith (dumps (JArray [JNull])) [CHR ''}'', NL, CHR '']'']"
    "\<not> (truthy JNull \<and> \<not> startswith (dumps (JArray [JNull])) [CHR ''['', NL])"
    by (simp_all add: dumps_def endswith_def newline_indent_def NL_def)
  have c: "\<not> (truthy (JString ''u'')
          \<and> \<not> startswith (dumps (JArray [JObject []])) [CHR ''['', NL])"
    "\<not> (truthy (JString ''u'')
          \<and> \<not> endswith (dumps (JArray [JObject []])) [CHR ''}'', NL, CHR '']''])"
    by (simp_all add: dumps_def startswith_def endswith_def newline_indent_def NL_def)
  have e: "resp_ok (envelope x y z)" "resp_json (envelope x y z)
      = Some (JObject [(''data'', x), (''previous'', y), (''next'', z)])"
    "getitem (JObject [(''data'', x), (''previous'', y), (''next'', z)]) ''data'' = Inr x"
    "getitem (JObject [(''data'', x), (''previous'', y), (''next'', z)]) ''previous'' = Inr y"
    "getitem (JObject [(''data'', x), (''previous'', y), (''next'', z)]) ''next'' = Inr z"
    for x y z
    by (simp_all add: envelope_def)
  show ?thesis
    using stitching_checks [OF e [of "JArray []" "JString ''u''" JNull], of "[]" start] a
      stitching_checks [OF e [of "JArray [JNull]" JNull "JString ''u''"], of "[]" start] b
      stitching_checks [OF e [of "JArray [JObject []]" "JString ''u''" "JString ''u''"],
        of "[]" start] c
    by presburger
qed

section \<open>Properties of the criteria\<close>

lemma py_split_not_Nil: "py_split c s \<noteq> []"
  by (induction s) (auto simp: Let_def)

lemma length_py_split: "length (py_split c s) = Suc (count_list s c)"
proof (induction s)
  case Nil
  show ?case by simp
next
  case (Cons x xs)
  have "length (tl (py_split c xs)) = count_list xs c"
    using Cons.IH by simp
  with Cons.IH show ?case
    by (simp add: Let_def)
qed

lemma py_split_one: "py_split c s = [b] \<Longrightarrow> b = s \<and> c \<notin> set s"
proof (induction s arbitrary: b)
  case Nil
  then show ?case by simp
next
  case (Cons x xs)
  show ?case
  proof (cases "x = c")
    case True
    with Cons.prems show ?thesis
      by (simp add: py_split_not_Nil)
  next
    case False
    with Cons.prems have b: "b = x # hd (py_split c xs)" and t: "tl (py_split c xs) = []"
      by (simp_all add: Let_def)
    from t have "py_split c xs = [hd (py_split c xs)]"
      using py_split_not_Nil [of c xs] by (cases "py_split c xs") simp_all
    from Cons.IH [OF this] b False show ?thesis
      by simp
  qed
qed

lemma py_split_two:
  "py_split c s = [a, b] \<Longrightarrow>
     a = takeWhile (\<lambda>x. x \<noteq> c) s \<and> b = drop 1 (dropWhile (\<lambda>x. x \<noteq> c) s)
     \<and> s = a @ c # b \<and> c \<notin> set a \<and> c \<notin> set b"
proof (induction s arbitrary: a)
  case Nil
  then show ?case by simp
next
  case (Cons x xs)
  show ?case
  proof (cases "x = c")
    case True
    with Cons.prems have "a = []" and "py_split c xs = [b]"
      by simp_all
    with py_split_one [of c xs b] True show ?thesis
      by simp
  next
    case False
    with Cons.prems have a: "a = x # hd (py_split c xs)" and t: "tl (py_split c xs) = [b]"
      by (simp_all add: Let_def)
    from t have "py_split c xs = [hd (py_split c xs), b]"
      using py_split_not_Nil [of c xs] by (cases "py_split c xs") simp_all
    from Cons.IH [OF this]
    have h: "hd (py_split c xs) = takeWhile (\<lambda>x. x \<noteq> c) xs"
      "b = drop 1 (dropWhile (\<lambda>x. x \<noteq> c) xs)"
      "hd (py_split c xs) @ c # b = xs"
      "c \<notin> set (hd (py_split c xs))" "c \<notin> set b"
      by metis+
    have "x # xs = a @ c # b"
      using a h(3) by simp
    moreover have "a = takeWhile (\<lambda>x. x \<noteq> c) (x # xs)"
      using a h(1) False by simp
    moreover have "b = drop 1 (dropWhile (\<lambda>x. x \<noteq> c) (x # xs))"
      using h(2) False by simp
    moreover have "c \<notin> set a"
      using a h(4) False by auto
    ultimately show ?thesis
      using h(5) by blast
  qed
qed

lemma two_parts_iff: "(\<exists>a b. py_split c s = [a, b]) = (count_list s c = 1)"
proof -
  have "(\<exists>a b. py_split c s = [a, b]) = (length (py_split c s) = 2)"
    by (auto simp: length_Suc_conv numeral_2_eq_2)
  then show ?thesis
    by (simp add: length_py_split)
qed

lemma add_criteria_Inl:
  "add_criteria cs fs = Inl e \<Longrightarrow> e = BadParameter syntax_message param_hint"
  by (induction cs arbitrary: fs) (auto split: list.splits)

lemma add_criteria_fails_iff:
  "(\<exists>e. add_criteria cs fs = Inl e) = (\<exists>nv \<in> set cs. count_list nv CHR ''='' \<noteq> 1)"
proof (induction cs arbitrary: fs)
  case Nil
  show ?case by simp
next
  case (Cons nv cs)
  show ?case
  proof (cases "count_list nv CHR ''='' = 1")
    case True
    then obtain a b where "py_split CHR ''='' nv = [a, b]"
      using two_parts_iff [of "CHR ''=''" nv] by blast
    with True Cons.IH show ?thesis
      by simp
  next
    case False
    then have "\<not> (\<exists>a b. py_split CHR ''='' nv = [a, b])"
      using two_parts_iff [of "CHR ''=''" nv] by blast
    then have "add_criteria (nv # cs) fs = Inl (BadParameter syntax_message param_hint)"
      by (auto split: list.splits)
    with False show ?thesis
      by auto
  qed
qed

lemma filter_fields_fails_iff:
  "(filter_fields (Some cs) = Inl (BadParameter syntax_message param_hint))
     = (\<exists>nv \<in> set cs. count_list nv CHR ''='' \<noteq> 1)"
proof (cases "cs = []")
  case True
  then show ?thesis by (simp add: filter_fields_def)
next
  case False
  then have "filter_fields (Some cs) = add_criteria cs []"
    by (simp add: filter_fields_def)
  then show ?thesis
    using add_criteria_fails_iff [of cs "[]"] add_criteria_Inl [of cs "[]"] by auto
qed

lemma filter_fields_Inl:
  "filter_fields field = Inl e \<Longrightarrow> e = BadParameter syntax_message param_hint"
  by (auto simp: filter_fields_def split: option.splits if_splits dest: add_criteria_Inl)

lemma cli_error_not_BadParameter: "cli_error r \<noteq> BadParameter m h"
proof -
  have g: "getitem j k = Inl e \<Longrightarrow> e \<noteq> BadParameter m h" for j k e
    by (cases j) (auto split: option.splits)
  have p: "py_get j k = Inl e \<Longrightarrow> e \<noteq> BadParameter m h" for j k e
    by (cases j) (auto split: option.splits)
  show ?thesis
    using g p by (auto simp: cli_error_def split: option.splits sum.splits)
qed

lemma render_page_not_BadParameter: "render_page j \<noteq> Inl (BadParameter m h)"
proof -
  have g: "getitem j k \<noteq> Inl (BadParameter m h)" for j k
    by (cases j) (auto split: option.splits)
  show ?thesis
    using g
    by (auto simp: render_page_def strip_start_def strip_end_def split: sum.splits if_splits)
qed

lemma json_loop_BadParameter:
  "raised (json_loop rs st) = Some (BadParameter m h) \<Longrightarrow> raised st = Some (BadParameter m h)"
proof (induction rs arbitrary: st)
  case Nil
  then show ?case by simp
next
  case (Cons r rs)
  show ?case
  proof (cases "resp_ok r")
    case False
    with Cons.prems show ?thesis
      by (simp add: Let_def cli_error_not_BadParameter)
  next
    case ok: True
    show ?thesis
    proof (cases "resp_json r")
      case None
      with ok Cons.prems show ?thesis by (simp add: Let_def)
    next
      case (Some j)
      show ?thesis
      proof (cases "render_page j")
        case (Inl e)
        with ok Some Cons.prems render_page_not_BadParameter [of j m h] show ?thesis
          by (auto simp: Let_def)
      next
        case (Inr t)
        with ok Some Cons.prems
        have "raised (json_loop rs (echo t (st\<lparr>pulled := Suc (pulled st)\<rparr>)))
                = Some (BadParameter m h)"
          by (simp add: Let_def)
        from Cons.IH [OF this] show ?thesis
          by (simp add: echo_def)
      qed
    qed
  qed
qed

lemma writerow_result:
  "writerow repr w row st = Inl e \<Longrightarrow> e = ValueError"
  "writerow repr w row st = Inr st' \<Longrightarrow> raised st' = raised st"
  by (auto simp: writerow_def dict_to_list_def split: if_splits)

lemma write_rows_BadParameter:
  "raised (write_rows repr w rows ending st) = Some (BadParameter m h)
     \<Longrightarrow> raised st = Some (BadParameter m h)"
proof (induction rows arbitrary: st)
  case Nil
  then show ?case
    by (auto simp: cli_error_not_BadParameter split: option.splits)
next
  case (Cons row rows)
  show ?case
  proof (cases "writerow repr w row (st\<lparr>pulled := Suc (pulled st)\<rparr>)")
    case (Inl e)
    with Cons.prems writerow_result(1) [OF Inl] show ?thesis
      by (simp add: Let_def)
  next
    case (Inr st2)
    with Cons.prems have "raised (write_rows repr w rows ending st2) = Some (BadParameter m h)"
      by (simp add: Let_def)
    from Cons.IH [OF this] writerow_result(2) [OF Inr] show ?thesis
      by simp
  qed
qed

lemma delimited_BadParameter:
  "raised (delimited repr format recs st) = Some (BadParameter m h)
     \<Longrightarrow> raised st = Some (BadParameter m h)"
  by (auto simp: delimited_def writeheader_def Let_def cli_error_not_BadParameter
      split: list.splits option.splits if_splits sum.splits
      dest!: write_rows_BadParameter writerow_result)

text \<open>
  Claim C3, as amended.  Every criterion is split at each \<^verbatim>\<open>=\<close>, and the unpacking into
  name and value needs exactly two parts.  So the command fails with the parameter error that
  names \<^verbatim>\<open>'-f' / '--field'\<close> if and only if some criterion does not contain exactly one
  \<^verbatim>\<open>=\<close>; and when it fails so, nothing has been pulled from the client (no request was
  issued) and nothing has been written.
\<close>

theorem malformed_criterion:
  "((\<exists>m h. raised (filter_cmd repr api project (Some criteria) include exclude scope format)
              = Some (BadParameter m h))
      = (\<exists>name_value \<in> set criteria. count_list name_value CHR ''='' \<noteq> 1))
   \<and> ((\<exists>name_value \<in> set criteria. count_list name_value CHR ''='' \<noteq> 1) \<longrightarrow>
        filter_cmd repr api project (Some criteria) include exclude scope format
          = \<lparr>stdout = [], pulled = 0, raised = Some (BadParameter syntax_message param_hint)\<rparr>)"
proof (cases "\<exists>name_value \<in> set criteria. count_list name_value CHR ''='' \<noteq> 1")
  case True
  then have "filter_fields (Some criteria) = Inl (BadParameter syntax_message param_hint)"
    by (simp add: filter_fields_fails_iff)
  with True show ?thesis
    by (simp add: filter_cmd_def start_def)
next
  case False
  then have "filter_fields (Some criteria) \<noteq> Inl (BadParameter syntax_message param_hint)"
    by (simp add: filter_fields_fails_iff)
  then obtain fs where fs: "filter_fields (Some criteria) = Inr fs"
    using filter_fields_Inl [of "Some criteria"] by (cases "filter_fields (Some criteria)") auto
  have "raised (filter_cmd repr api project (Some criteria) include exclude scope format)
          \<noteq> Some (BadParameter m h)" for m h
    by (auto simp: filter_cmd_def fs Let_def start_def
        dest!: json_loop_BadParameter delimited_BadParameter)
  with False show ?thesis
    by simp
qed

theorem malformed_criterion_witness:
  "filter_cmd (\<lambda>v. []) no_client ''project'' (Some [''abc'']) None None None (Some JSON)
     = \<lparr>stdout = [], pulled = 0, raised = Some (BadParameter syntax_message param_hint)\<rparr>"
proof -
  have "\<exists>name_value \<in> set [''abc'']. count_list name_value CHR ''='' \<noteq> 1"
    by simp
  with malformed_criterion
         [of "\<lambda>v. []" no_client "''project''" "[''abc'']" None None None "Some JSON"]
  show ?thesis
    by blast
qed

text \<open>
  Claim C3 as stated fails: the criterion \<^verbatim>\<open>a=b=c\<close> contains \<^verbatim>\<open>=\<close>, yet it is
  refused with the parameter error, since the split has three parts.
\<close>

theorem malformed_criterion_counterexample:
  "CHR ''='' \<in> set ''a=b=c''
   \<and> filter_fields (Some [''a=b=c'']) = Inl (BadParameter syntax_message param_hint)"
  by (simp add: filter_fields_def Let_def)

lemma replace_dots_no_dot: "CHR ''.'' \<notin> set (replace_dots s)"
  by (induction s) auto

lemma fst_setdefault_append:
  "map fst (setdefault_append k v fs)
     = (if k \<in> set (map fst fs) then map fst fs else map fst fs @ [k])"
  by (induction fs) force+

lemma map_of_setdefault_append:
  "map_of (setdefault_append k v fs)
     = (map_of fs)(k \<mapsto> (case map_of fs k of None \<Rightarrow> [v] | Some vs \<Rightarrow> vs @ [v]))"
  by (induction fs) (auto simp: fun_eq_iff)

lemma distinct_setdefault_append:
  "distinct (map fst fs) \<Longrightarrow> distinct (map fst (setdefault_append k v fs))"
  by (simp add: fst_setdefault_append)

lemma add_criteria_result:
  assumes "add_criteria cs fs0 = Inr fs" and "distinct (map fst fs0)"
  shows "distinct (map fst fs)
       \<and> set (map fst fs) = set (map fst fs0) \<union> (\<lambda>nv. replace_dots (name_of nv)) ` set cs
       \<and> (\<forall>k. map_of fs k = merged (map_of fs0 k) (values_for k cs))
       \<and> (\<forall>nv \<in> set cs. nv = name_of nv @ CHR ''='' # value_of nv
             \<and> CHR ''='' \<notin> set (name_of nv) \<and> CHR ''='' \<notin> set (value_of nv))"
  using assms
proof (induction cs arbitrary: fs0)
  case Nil
  then show ?case
    by (auto simp: merged_def values_for_def split: option.splits)
next
  case (Cons nv cs)
  from Cons.prems(1) obtain a b where ab: "py_split CHR ''='' nv = [a, b]"
    by (auto split: list.splits)
  have nv: "a = name_of nv" "b = value_of nv" "nv = name_of nv @ CHR ''='' # value_of nv"
    "CHR ''='' \<notin> set (name_of nv)" "CHR ''='' \<notin> set (value_of nv)"
    using py_split_two [OF ab] unfolding name_of_def value_of_def by blast+
  let ?k = "replace_dots (name_of nv)"
  let ?fs1 = "setdefault_append ?k (value_of nv) fs0"
  from Cons.prems(1) ab nv have rest: "add_criteria cs ?fs1 = Inr fs"
    by simp
  have d1: "distinct (map fst ?fs1)"
    using Cons.prems(2) by (rule distinct_setdefault_append)
  note ih = Cons.IH [OF rest d1]
  have keys: "set (map fst ?fs1) = insert ?k (set (map fst fs0))"
    by (auto simp: fst_setdefault_append)
  have vals: "merged (map_of ?fs1 k) (values_for k cs)
                = merged (map_of fs0 k) (values_for k (nv # cs))" for k
    by (auto simp: map_of_setdefault_append merged_def values_for_def split: option.splits)
  show ?case
    using ih nv(3,4,5) keys vals by auto
qed

lemma add_criteria_keys:
  assumes "add_criteria cs fs0 = Inr fs"
  shows "map fst fs = map fst fs0
           @ filter (\<lambda>k. k \<notin> set (map fst fs0))
               (first_occurrences (map (\<lambda>nv. replace_dots (name_of nv)) cs))"
  using assms
proof (induction cs arbitrary: fs0)
  case Nil
  then show ?case by simp
next
  case (Cons nv cs)
  from Cons.prems(1) obtain a b where ab: "py_split CHR ''='' nv = [a, b]"
    by (auto split: list.splits)
  have nv: "a = name_of nv" "b = value_of nv"
    using py_split_two [OF ab] unfolding name_of_def value_of_def by blast+
  let ?k = "replace_dots (name_of nv)"
  let ?fs1 = "setdefault_append ?k (value_of nv) fs0"
  from Cons.prems(1) ab nv have rest: "add_criteria cs ?fs1 = Inr fs"
    by simp
  note ih = Cons.IH [OF rest]
  show ?case
  proof (cases "?k \<in> set (map fst fs0)")
    case True
    have "filter (\<lambda>k. k \<notin> set (map fst fs0)) (filter (\<lambda>y. y \<noteq> ?k) xs)
            = filter (\<lambda>k. k \<notin> set (map fst fs0)) xs" for xs
      using True by (induction xs) auto
    with ih True show ?thesis
      by (simp add: fst_setdefault_append)
  next
    case False
    have "filter (\<lambda>k. k \<notin> set (map fst fs0)) (filter (\<lambda>y. y \<noteq> ?k) xs)
            = filter (\<lambda>k. k \<noteq> ?k \<and> k \<notin> set (map fst fs0)) xs" for xs
      by (induction xs) auto
    with ih False show ?thesis
      by (simp add: fst_setdefault_append)
  qed
qed

text \<open>
  Claim C9.  When the criteria are accepted, the query mapping has one entry for each rewritten
  field name, in the order of first mention; the rewritten name is the name before \<^verbatim>\<open>=\<close>
  with every dot replaced by \<^verbatim>\<open>__\<close>, so no key contains a dot; and the entry of a key holds
  the values of all criteria with that rewritten name, in the order of the criteria.  Each
  accepted criterion is its name, \<^verbatim>\<open>=\<close>, and its value.
\<close>

theorem criteria_accumulate:
  assumes "filter_fields (Some criteria) = Inr fs"
  shows "distinct (map fst fs)
       \<and> map fst fs
           = first_occurrences (map (\<lambda>name_value. replace_dots (name_of name_value)) criteria)
       \<and> (\<forall>k \<in> set (map fst fs). CHR ''.'' \<notin> set k)
       \<and> (\<forall>k. map_of fs k
               = (if values_for k criteria = [] then None else Some (values_for k criteria)))
       \<and> (\<forall>name_value \<in> set criteria.
             name_value = name_of name_value @ CHR ''='' # value_of name_value
             \<and> CHR ''='' \<notin> set (name_of name_value)
             \<and> CHR ''='' \<notin> set (value_of name_value))"
proof (cases "criteria = []")
  case True
  with assms show ?thesis
    by (auto simp: filter_fields_def values_for_def)
next
  case False
  with assms have "add_criteria criteria [] = Inr fs"
    by (simp add: filter_fields_def)
  from add_criteria_result [OF this] add_criteria_keys [OF this]
  show ?thesis
    by (auto simp: merged_def replace_dots_no_dot)
qed

theorem criteria_accumulate_witness:
  "filter_fields (Some example_criteria) = Inr [(''a__b'', [''1'', ''3'']), (''c'', [''2''])]
   \<and> map fst [(''a__b'', [''1'', ''3'']), (''c'', [''2''])]
       = first_occurrences
           (map (\<lambda>name_value. replace_dots (name_of name_value)) example_criteria)
   \<and> map_of [(''a__b'', [''1'', ''3'']), (''c'', [''2''])] ''a__b''
       = (if values_for ''a__b'' example_criteria = [] then None
          else Some (values_for ''a__b'' example_criteria))"
proof -
  have h: "filter_fields (Some example_criteria)
             = Inr [(''a__b'', [''1'', ''3'']), (''c'', [''2''])]"
    by (simp add: filter_fields_def example_criteria_def Let_def)
  from criteria_accumulate [OF h] h show ?thesis
    by blast
qed

section \<open>Properties of the error report\<close>

text \<open>
  Claim C5, as amended.  For the response of an error page: if the body does not decode as
  JSON, the raw text of the response is reported; if it decodes to a dictionary whose
  \<^verbatim>\<open>messages\<close> entry is a dictionary with a \<^verbatim>\<open>detail\<close> entry that is true as a Python
  value, that detail is reported; and if \<^verbatim>\<open>messages\<close> is a dictionary whose \<^verbatim>\<open>detail\<close>
  is absent or false as a Python value (empty string, \<^verbatim>\<open>None\<close>, zero, empty container),
  the \<^verbatim>\<open>messages\<close> dictionary is reported, rendered with an indent of four.
\<close>

theorem cli_error_cases:
  "(resp_json response = None \<longrightarrow>
      cli_error response = ClickException (JString (resp_text response)))
   \<and> (resp_json response = Some (JObject body)
        \<and> map_of body ''messages'' = Some (JObject messages)
        \<and> map_of messages ''detail'' = Some detail \<and> truthy detail \<longrightarrow>
      cli_error response = ClickException detail)
   \<and> (resp_json response = Some (JObject body)
        \<and> map_of body ''messages'' = Some (JObject messages)
        \<and> (case map_of messages ''detail'' of None \<Rightarrow> True | Some d \<Rightarrow> \<not> truthy d) \<longrightarrow>
      cli_error response = ClickException (JString (dumps (JObject messages))))"
  by (auto simp: cli_error_def split: option.splits)

theorem cli_error_cases_witness:
  "cli_error (error_response ''Bad Gateway'' None) = ClickException (JString ''Bad Gateway'')
   \<and> cli_error (error_response []
         (Some (JObject [(''messages'', JObject [(''detail'', JString ''Not found.'')])])))
       = ClickException (JString ''Not found.'')
   \<and> cli_error (error_response []
         (Some (JObject [(''messages'', JObject [(''site'', JArray [JString ''Unknown.''])])])))
       = ClickException (JString (dumps (JObject [(''site'', JArray [JString ''Unknown.''])])))"
proof -
  have a: "resp_json (error_response ''Bad Gateway'' None) = None"
    and ta: "resp_text (error_response ''Bad Gateway'' None) = ''Bad Gateway''"
    by (simp_all add: error_response_def)
  have b: "resp_json (error_response []
         (Some (JObject [(''messages'', JObject [(''detail'', JString ''Not found.'')])])))
       = Some (JObject [(''messages'', JObject [(''detail'', JString ''Not found.'')])])
     \<and> map_of [(''messages'', JObject [(''detail'', JString ''Not found.'')])] ''messages''
       = Some (JObject [(''detail'', JString ''Not found.'')])
     \<and> map_of [(''detail'', JString ''Not found.'')] ''detail'' = Some (JString ''Not found.'')
     \<and> truthy (JString ''Not found.'')"
    by (simp add: error_response_def)
  have c: "resp_json (error_response []
         (Some (JObject [(''messages'', JObject [(''site'', JArray [JString ''Unknown.''])])])))
       = Some (JObject [(''messages'', JObject [(''site'', JArray [JString ''Unknown.''])])])
     \<and> map_of [(''messages'', JObject [(''site'', JArray [JString ''Unknown.''])])] ''messages''
       = Some (JObject [(''site'', JArray [JString ''Unknown.''])])
     \<and> (case map_of [(''site'', JArray [JString ''Unknown.''])] ''detail'' of
           None \<Rightarrow> True | Some d \<Rightarrow> \<not> truthy d)"
    by (simp add: error_response_def)
  have 1: "cli_error (error_response ''Bad Gateway'' None) = ClickException (JString ''Bad Gateway'')"
    using cli_error_cases [of "error_response ''Bad Gateway'' None"] a ta by metis
  have 2: "cli_error (error_response []
         (Some (JObject [(''messages'', JObject [(''detail'', JString ''Not found.'')])])))
       = ClickException (JString ''Not found.'')"
    using cli_error_cases [THEN conjunct2, THEN conjunct1, THEN mp, OF b] .
  have 3: "cli_error (error_response []
         (Some (JObject [(''messages'', JObject [(''site'', JArray [JString ''Unknown.''])])])))
       = ClickException (JString (dumps (JObject [(''site'', JArray [JString ''Unknown.''])])))"
    using cli_error_cases [THEN conjunct2, THEN conjunct2, THEN mp, OF c] .
  from 1 2 3 show ?thesis by blast
qed

text \<open>
  Claim C5 as stated fails: the messages of this error page have a detail entry, the empty
  string, and it is not the detail that is reported but the rendering of the messages.
\<close>

theorem cli_error_cases_counterexample:
  "resp_json empty_detail = Some (JObject [(''messages'', JObject [(''detail'', JString [])])])
   \<and> map_of [(''detail'', JString [])] ''detail'' = Some (JString [])
   \<and> cli_error empty_detail \<noteq> ClickException (JString [])
   \<and> cli_error empty_detail
       = ClickException (JString (''{'' @ [NL] @ ''    '' @ [DQUOTE] @ ''detail'' @ [DQUOTE]
                                   @ '': '' @ [DQUOTE, DQUOTE, NL] @ ''}''))"
  by code_simp

section \<open>Properties of the field table\<close>

lemma join_snoc: "xs \<noteq> [] \<Longrightarrow> join sep (xs @ [x]) = join sep xs @ sep @ x"
  by (induction sep xs rule: join.induct) auto

lemma join_dots_not_Nil: "xs \<noteq> [] \<Longrightarrow> join ''.'' (xs @ [x]) \<noteq> []"
  by (simp add: join_snoc)

lemma field_row_path:
  assumes "path \<noteq> [] \<longrightarrow> join ''.'' path \<noteq> []"
  shows "field_row (path_prefix path) field fi = path_row path field fi"
proof -
  have "(case vs of None \<Rightarrow> [] | Some vs \<Rightarrow> if vs \<noteq> [] then join '', '' vs else [])
          = (case vs of None \<Rightarrow> [] | Some vs \<Rightarrow> join '', '' vs)" for vs
    by (cases vs) auto
  with assms show ?thesis
    by (auto simp: field_row_def path_row_def field_cell_def path_prefix_def join_snoc)
qed

lemma child_prefix_path:
  assumes "path \<noteq> [] \<longrightarrow> join ''.'' path \<noteq> []"
  shows "Some (child_prefix (path_prefix path) field) = path_prefix (path @ [field])"
  using assms by (auto simp: child_prefix_def path_prefix_def join_snoc)

lemma add_fields_rows:
  assumes "relations_have_fields tree"
    and "path = [] \<longrightarrow> top_relations_named tree"
    and "path \<noteq> [] \<longrightarrow> join ''.'' path \<noteq> []"
  shows "add_fields table tree (path_prefix path) = Inr (table @ tree_rows path tree)"
  using assms
proof (induction path tree arbitrary: table rule: tree_rows.induct)
  case (1 path)
  show ?case by simp
next
  case (2 path field req ty desc vals flds rest)
  let ?fi = "FieldInfo req ty desc vals flds"
  let ?table1 = "table @ [path_row path field ?fi]"
  have row: "field_row (path_prefix path) field fi = path_row path field fi" for fi
    using "2.prems"(3) by (rule field_row_path)
  have rest_ok: "relations_have_fields rest" "path = [] \<longrightarrow> top_relations_named rest"
    using "2.prems"(1,2) by (auto simp: top_relations_named_def)
  have rest_rows: "add_fields t rest (path_prefix path) = Inr (t @ tree_rows path rest)" for t
    using "2.IH"(2) rest_ok "2.prems"(3) by blast
  show ?case
  proof (cases "ty = ''relation''")
    case False
    then show ?thesis
      by (simp add: row rest_rows)
  next
    case True
    with "2.prems"(1) obtain sub where sub: "flds = Some sub" "relations_have_fields sub"
      by (cases flds) auto
    have named: "path = [] \<longrightarrow> field \<noteq> []"
      using "2.prems"(2) True by (simp add: top_relations_named_def)
    have deeper: "path @ [field] \<noteq> [] \<longrightarrow> join ''.'' (path @ [field]) \<noteq> []"
      using named by (cases "path = []") (simp_all add: join_snoc)
    have "add_fields t sub (path_prefix (path @ [field]))
            = Inr (t @ tree_rows (path @ [field]) sub)" for t
      using "2.IH"(1) [OF True sub(1) sub(2) _ deeper] by simp
    then show ?thesis
      using True sub(1) child_prefix_path [OF "2.prems"(3), of field]
      by (simp add: row rest_rows)
  qed
qed

text \<open>
  Claim C8, as amended.  For every field specification in which each relation has its
  \<^verbatim>\<open>fields\<close> and no top-level relation has the empty name, \<^verbatim>\<open>add_fields\<close> appends to the
  table exactly the rows of the tree in depth-first order, the row of a relation before the
  rows of its children; a top-level row shows the field name, a nested row the dotted path
  from the top in \<^verbatim>\<open>[dim]\<close> markup, and the values of a field are joined with a comma and a
  space.  The witness is the design's example: the rows are \<^verbatim>\<open>sample_id\<close>,
  \<^verbatim>\<open>collection\<close>, \<^verbatim>\<open>collection.country\<close>, the last with the values \<^verbatim>\<open>UK, FR\<close>.
\<close>

theorem field_rows_depth_first:
  assumes "relations_have_fields tree" and "top_relations_named tree"
  shows "add_fields table tree None = Inr (table @ tree_rows [] tree)"
  using add_fields_rows [of tree "[]" table] assms by (simp add: path_prefix_def)

theorem field_rows_depth_first_witness:
  "add_fields [] example_tree None
     = Inr [[''sample_id'', ''[bold red]required[/]'', ''text'', [], []],
            [''collection'', ''[bold cyan]optional[/]'', ''relation'', [], []],
            [''[dim]collection.country[/dim]'', ''[bold red]required[/]'', ''choice'', [],
             ''UK, FR'']]"
proof -
  have h: "relations_have_fields example_tree" "top_relations_named example_tree"
    by (simp_all add: example_tree_def top_relations_named_def)
  have t: "tree_rows [] example_tree
     = [[''sample_id'', ''[bold red]required[/]'', ''text'', [], []],
        [''collection'', ''[bold cyan]optional[/]'', ''relation'', [], []],
        [''[dim]collection.country[/dim]'', ''[bold red]required[/]'', ''choice'', [],
         ''UK, FR'']]"
    by (simp add: example_tree_def path_row_def)
  from field_rows_depth_first [OF h, of "[]"] show ?thesis
    unfolding t by simp
qed

text \<open>
  Claim C8 as stated fails: below a top-level relation with the empty name the prefix is the
  empty string, which \<^verbatim>\<open>if prefix\<close> takes for no prefix, so the child is shown as
  \<^verbatim>\<open>x\<close>, like a top-level field, and not with the dotted path \<^verbatim>\<open>.x\<close>.
\<close>

theorem field_rows_depth_first_counterexample:
  "relations_have_fields unnamed_relation
   \<and> add_fields [] unnamed_relation None
       = Inr [[[], ''[bold cyan]optional[/]'', ''relation'', [], []],
              [''x'', ''[bold red]required[/]'', ''text'', [], []]]
   \<and> tree_rows [] unnamed_relation
       = [[[], ''[bold cyan]optional[/]'', ''relation'', [], []],
          [''[dim].x[/dim]'', ''[bold red]required[/]'', ''text'', [], []]]"
  by (simp add: unnamed_relation_def field_row_def field_cell_def child_prefix_def path_row_def)

section \<open>The stitched JSON array\<close>

lemma join_append:
  "xs \<noteq> [] \<Longrightarrow> ys \<noteq> [] \<Longrightarrow> join sep (xs @ ys) = join sep xs @ sep @ join sep ys"
proof (induction sep xs rule: join.induct)
  case (1 sep)
  then show ?case by simp
next
  case (2 sep x)
  then show ?case by (cases ys) simp_all
next
  case (3 sep x y ys')
  then show ?case by simp
qed

lemma join_ends_with_last: "xs \<noteq> [] \<Longrightarrow> \<exists>b. join sep xs = b @ last xs"
proof (induction sep xs rule: join.induct)
  case (1 sep)
  then show ?case by simp
next
  case (2 sep x)
  have "join sep [x] = [] @ last [x]" by simp
  then show ?case by blast
next
  case (3 sep x y ys)
  then obtain b where "join sep (y # ys) = b @ last (y # ys)"
    by auto
  then have "join sep (x # y # ys) = (x @ sep @ b) @ last (x # y # ys)"
    by simp
  then show ?case by blast
qed

lemma object_ends_with_brace: "is_object v \<Longrightarrow> \<exists>b. iterencode l v = b @ ''}''"
proof (cases v)
  case (JObject kvs)
  show ?thesis
  proof (cases "kvs = []")
    case True
    with JObject have "iterencode l v = ''{'' @ ''}''" by simp
    then show ?thesis by blast
  next
    case False
    with JObject have "iterencode l v
        = (''{'' @ newline_indent (Suc l)
           @ join (CHR '','' # newline_indent (Suc l))
               (map (\<lambda>(k, v). encode_basestring_ascii k @ '': '' @ iterencode (Suc l) v) kvs)
           @ newline_indent l) @ ''}''"
      by simp
    then show ?thesis by blast
  qed
qed simp_all

lemma elements_append:
  "xs \<noteq> [] \<Longrightarrow> ys \<noteq> [] \<Longrightarrow>
     elements (xs @ ys) = elements xs @ '','' @ [NL] @ ''    '' @ elements ys"
  by (simp add: elements_def join_append newline_indent_def numeral_eq_Suc)

lemma elements_end:
  assumes "xs \<noteq> []" and "is_object (last xs)"
  shows "\<exists>b. elements xs = b @ ''}''"
proof -
  from assms(1) obtain b where b: "elements xs = b @ last (map (iterencode 1) xs)"
    unfolding elements_def using join_ends_with_last [of "map (iterencode 1) xs"] by auto
  from assms have "last (map (iterencode 1) xs) = iterencode 1 (last xs)"
    by (simp add: last_map)
  with object_ends_with_brace [OF assms(2), of 1] b show ?thesis
    by (metis append.assoc)
qed

lemma dumps_array:
  "xs \<noteq> [] \<Longrightarrow> dumps (JArray xs) = [CHR ''['', NL] @ ''    '' @ elements xs @ [NL, CHR '']'']"
  by (simp add: dumps_def elements_def newline_indent_def numeral_eq_Suc)

lemma startswith_append: "startswith (p @ s) p"
  by (simp add: startswith_def)

lemma endswith_append: "endswith (s @ p) p"
  by (simp add: endswith_def)

lemma stitched_fragment:
  assumes "xs \<noteq> []" and "truthy nv \<longrightarrow> is_object (last xs)"
  shows "stitched pv nv (dumps (JArray xs)) = fragment (truthy pv) (truthy nv) xs"
proof (cases "truthy nv")
  case False
  then show ?thesis
    by (simp add: stitched_def dumps_array [OF assms(1)] fragment_def)
next
  case True
  with assms obtain b where b: "elements xs = b @ ''}''"
    using elements_end by blast
  have "take (length (s @ b @ ''}'' @ [NL, CHR '']'']) - 3) (s @ b @ ''}'' @ [NL, CHR '']''])
          = s @ b" for s
    by simp
  then have "take (length (s @ elements xs @ [NL, CHR '']'']) - 3)
               (s @ elements xs @ [NL, CHR '']'']) @ ''},''
          = s @ elements xs @ '',''" for s
    by (simp add: b)
  from this [of "[CHR ''['', NL] @ ''    ''"] this [of "''    ''"] True show ?thesis
    by (simp add: stitched_def dumps_array [OF assms(1)] fragment_def)
qed

lemma checks_pass:
  assumes "xs \<noteq> []"
  shows "startswith (dumps (JArray xs)) [CHR ''['', NL]"
    and "is_object (last xs) \<Longrightarrow> endswith (dumps (JArray xs)) [CHR ''}'', NL, CHR '']'']"
proof -
  show "startswith (dumps (JArray xs)) [CHR ''['', NL]"
    unfolding dumps_array [OF assms] by (rule startswith_append)
next
  assume "is_object (last xs)"
  with assms obtain b where b: "elements xs = b @ ''}''"
    using elements_end by blast
  have "dumps (JArray xs) = ([CHR ''['', NL] @ ''    '' @ b) @ [CHR ''}'', NL, CHR '']'']"
    by (simp add: dumps_array [OF assms] b)
  then show "endswith (dumps (JArray xs)) [CHR ''}'', NL, CHR '']'']"
    using endswith_append by metis
qed

lemma page_viewD:
  assumes "page_view r = Some (xs, p, n)"
  shows "resp_ok r \<and> (\<exists>j pv nv. resp_json r = Some j \<and> getitem j ''data'' = Inr (JArray xs)
           \<and> getitem j ''previous'' = Inr pv \<and> getitem j ''next'' = Inr nv
           \<and> truthy pv = p \<and> truthy nv = n)"
proof -
  from assms have ok: "resp_ok r"
    by (auto simp: page_view_def split: if_splits)
  with assms obtain kvs where kvs: "resp_json r = Some (JObject kvs)"
    by (auto simp: page_view_def split: option.splits json.splits)
  with assms ok obtain pv nv where
    "map_of kvs ''data'' = Some (JArray xs)" "map_of kvs ''previous'' = Some pv"
    "map_of kvs ''next'' = Some nv" "truthy pv = p" "truthy nv = n"
    by (auto simp: page_view_def split: option.splits json.splits)
  with ok kvs show ?thesis
    by auto
qed

lemma json_loop_page:
  assumes "page_view r = Some (xs, p, n)" and "fits r" and "p \<or> n"
  shows "json_loop (r # rs) st
           = json_loop rs (echo (fragment p n xs) (st\<lparr>pulled := Suc (pulled st)\<rparr>))"
proof -
  from page_viewD [OF assms(1)] obtain j pv nv where
    r: "resp_ok r" "resp_json r = Some j" and
    j: "getitem j ''data'' = Inr (JArray xs)" "getitem j ''previous'' = Inr pv"
       "getitem j ''next'' = Inr nv" and
    t: "truthy pv = p" "truthy nv = n"
    by blast
  from assms have xs: "xs \<noteq> []" and last: "n \<longrightarrow> is_object (last xs)"
    by (auto simp: fits_def split: if_splits)
  have "render_page j = Inr (fragment p n xs)"
    using render_page_cases [OF j] checks_pass [OF xs] last t
      stitched_fragment [OF xs, of nv pv]
    by auto
  with r show ?thesis
    by (simp add: Let_def)
qed

lemma json_loop_single:
  assumes "page_view r = Some (xs, False, False)"
  shows "json_loop [r] st = echo (dumps (JArray xs)) (st\<lparr>pulled := Suc (pulled st)\<rparr>)"
proof -
  from page_viewD [OF assms] obtain j pv nv where
    r: "resp_ok r" "resp_json r = Some j" and
    j: "getitem j ''data'' = Inr (JArray xs)" "getitem j ''previous'' = Inr pv"
       "getitem j ''next'' = Inr nv" and
    t: "\<not> truthy pv" "\<not> truthy nv"
    by auto
  have "render_page j = Inr (dumps (JArray xs))"
    using render_page_cases [OF j] t by (simp add: stitched_def)
  with r show ?thesis
    by (simp add: Let_def)
qed

lemma json_loop_following:
  assumes "rs \<noteq> []" and "paged True rs" and "list_all fits rs"
  shows "all_data rs \<noteq> []
       \<and> json_loop rs st
           = st\<lparr>stdout := stdout st @ ''    '' @ elements (all_data rs) @ [NL, CHR '']'', NL],
                pulled := pulled st + length rs\<rparr>"
  using assms
proof (induction rs arbitrary: st)
  case Nil
  then show ?case by simp
next
  case (Cons r rs)
  from Cons.prems(2) obtain xs n where
    v: "page_view r = Some (xs, True, n)" and n: "n = (rs \<noteq> [])" and rest: "paged True rs"
    by (auto split: option.splits)
  from Cons.prems(3) have f: "fits r" and fs: "list_all fits rs"
    by simp_all
  from v f have xs: "xs \<noteq> []"
    by (auto simp: fits_def split: if_splits)
  have items: "page_items r = xs"
    by (simp add: page_items_def v)
  have step: "json_loop (r # rs) st
      = json_loop rs (echo (fragment True n xs) (st\<lparr>pulled := Suc (pulled st)\<rparr>))"
    using json_loop_page [OF v f] by simp
  show ?case
  proof (cases "rs = []")
    case True
    with n step xs items show ?thesis
      by (simp add: all_data_def fragment_def echo_def)
  next
    case False
    note ih = Cons.IH [OF False rest fs]
    from ih have more: "all_data rs \<noteq> []"
      by blast
    have "all_data (r # rs) = xs @ all_data rs"
      by (simp add: all_data_def items)
    with False n step xs more ih show ?thesis
      by (simp add: fragment_def echo_def elements_append)
  qed
qed

text \<open>
  Claim C1, as amended.  Take a non-empty sequence of successful pages, each with a body that
  has the entries \<^verbatim>\<open>data\<close> (an array), \<^verbatim>\<open>previous\<close> and \<^verbatim>\<open>next\<close>, where
  \<^verbatim>\<open>previous\<close> is set exactly on the pages after the first and \<^verbatim>\<open>next\<close> exactly on the
  pages before the last.  If moreover the array of every page with a neighbour is not empty,
  and the array of every page that has a next page ends in an object, then the JSON output
  path pulls every page, raises nothing, and the text it writes is, character for character,
  the indented rendering of the one array that concatenates the arrays of the pages in order,
  followed by a newline; so the output parses as that array.
\<close>

theorem stitched_pages:
  assumes "pages \<noteq> []" and "paged False pages" and "list_all fits pages"
  shows "json_loop pages start
           = \<lparr>stdout = dumps (JArray (all_data pages)) @ [NL], pulled = length pages,
              raised = None\<rparr>"
proof -
  from assms(1) obtain r rs where pages: "pages = r # rs"
    by (cases pages) auto
  from assms(2) pages obtain xs n where
    v: "page_view r = Some (xs, False, n)" and n: "n = (rs \<noteq> [])" and rest: "paged True rs"
    by (auto split: option.splits)
  from assms(3) pages have f: "fits r" and fs: "list_all fits rs"
    by simp_all
  have items: "page_items r = xs"
    by (simp add: page_items_def v)
  show ?thesis
  proof (cases "rs = []")
    case True
    with n v have "json_loop [r] start
        = echo (dumps (JArray xs)) (start\<lparr>pulled := Suc (pulled start)\<rparr>)"
      using json_loop_single by simp
    with True pages items show ?thesis
      by (simp add: all_data_def echo_def start_def)
  next
    case False
    with n v f have xs: "xs \<noteq> []"
      by (auto simp: fits_def split: if_splits)
    have step: "json_loop (r # rs) start
        = json_loop rs (echo (fragment False True xs) (start\<lparr>pulled := Suc (pulled start)\<rparr>))"
      using json_loop_page [OF v f] False n by simp
    note following = json_loop_following [OF False rest fs]
    from following have more: "all_data rs \<noteq> []"
      by blast
    have ad: "all_data (r # rs) = xs @ all_data rs"
      by (simp add: all_data_def items)
    have "xs @ all_data rs \<noteq> []"
      using xs by simp
    from dumps_array [OF this] step following xs more show ?thesis
      by (simp add: pages ad fragment_def echo_def start_def elements_append)
  qed
qed

theorem stitched_pages_witness:
  "json_loop [first_page, last_page] start
     = \<lparr>stdout = dumps (JArray [JObject [], JObject []]) @ [NL],
        pulled = length [first_page, last_page], raised = None\<rparr>"
proof -
  have h: "[first_page, last_page] \<noteq> []" "paged False [first_page, last_page]"
    "list_all fits [first_page, last_page]"
    by (simp_all add: first_page_def last_page_def envelope_def page_view_def fits_def)
  have d: "all_data [first_page, last_page] = [JObject [], JObject []]"
    by (simp add: all_data_def page_items_def first_page_def last_page_def envelope_def
          page_view_def)
  from stitched_pages [OF h] show ?thesis
    unfolding d .
qed

text \<open>
  Claim C1 as stated fails: when the last of two pages has an empty array, its text is
  \<^verbatim>\<open>[]\<close>, which does not start with \<^verbatim>\<open>[\<close> and a newline.  The first page has been
  written, with its comma, and the run ends with an exception; the output is an array that
  is never closed, not the rendering of the one record.
\<close>

theorem stitched_pages_counterexample:
  "paged False [first_page, empty_last_page]
   \<and> json_loop [first_page, empty_last_page] start
       = \<lparr>stdout = [CHR ''['', NL] @ ''    {},'' @ [NL], pulled = 2,
          raised = Some (PyException ''Response JSON has invalid start character(s).'')\<rparr>
   \<and> dumps (JArray (all_data [first_page, empty_last_page]))
       = [CHR ''['', NL] @ ''    {}'' @ [NL] @ '']''"
  by code_simp

section \<open>Output before the error of a later page\<close>

lemma json_loop_one:
  assumes "raised (json_loop [r] st) = None"
  shows "json_loop (r # rs) st = json_loop rs (json_loop [r] st)"
  using assms
  by (auto simp: Let_def split: if_splits option.splits sum.splits)

lemma json_loop_pulled_one:
  assumes "raised (json_loop [r] st) = None"
  shows "pulled (json_loop [r] st) = Suc (pulled st)"
  using assms
  by (auto simp: Let_def echo_def split: if_splits option.splits sum.splits)

lemma json_loop_error_page:
  "\<not> resp_ok r \<Longrightarrow>
     json_loop (r # rs) st = st\<lparr>pulled := Suc (pulled st), raised := Some (cli_error r)\<rparr>"
  by (simp add: Let_def)

lemma write_rows_ending:
  assumes "raised (write_rows repr w rows None st) = None"
  shows "write_rows repr w rows (Some r) st
           = (write_rows repr w rows None st)\<lparr>raised := Some (cli_error r)\<rparr>"
  using assms
proof (induction rows arbitrary: st)
  case Nil
  then show ?case by simp
next
  case (Cons row rows)
  show ?case
  proof (cases "writerow repr w row (st\<lparr>pulled := Suc (pulled st)\<rparr>)")
    case (Inl e)
    with Cons.prems show ?thesis
      by (simp add: Let_def)
  next
    case (Inr st2)
    with Cons.prems have "raised (write_rows repr w rows None st2) = None"
      by (simp add: Let_def)
    from Cons.IH [OF this] Inr show ?thesis
      by (simp add: Let_def)
  qed
qed

lemma delimited_ending:
  assumes "raised (delimited repr format (rows, None) st) = None"
    and "rows = [] \<or> hd rows \<noteq> []"
  shows "delimited repr format (rows, Some r) st
           = (delimited repr format (rows, None) st)\<lparr>raised := Some (cli_error r)\<rparr>"
proof (cases rows)
  case Nil
  then show ?thesis
    by (simp add: delimited_def)
next
  case (Cons row others)
  with assms(2) have row: "row \<noteq> []"
    by simp
  let ?st1 = "st\<lparr>pulled := Suc (pulled st)\<rparr>"
  let ?w = "\<lparr>delimiter = (if format = Some TSV then TAB else CHR '',''),
             fieldnames = map fst row\<rparr>"
  show ?thesis
  proof (cases "writeheader repr ?w ?st1")
    case (Inl e)
    with assms(1) Cons row show ?thesis
      by (simp add: delimited_def Let_def)
  next
    case h: (Inr st2)
    show ?thesis
    proof (cases "writerow repr ?w row st2")
      case (Inl e)
      with assms(1) Cons row h show ?thesis
        by (simp add: delimited_def Let_def)
    next
      case (Inr st3)
      with assms(1) Cons row h have "raised (write_rows repr ?w others None st3) = None"
        by (simp add: delimited_def Let_def)
      from write_rows_ending [OF this] Cons row h Inr show ?thesis
        by (simp add: delimited_def Let_def)
    qed
  qed
qed

text \<open>
  Claim C4, as amended.  Let page 1 be successful and page 2 an error page, and let page 1 be
  written without an exception when it is taken alone (for delimited output, let moreover
  its first record, if it has one, not be the empty dictionary).  Then the run on the whole
  stream writes exactly what is written for page 1, leaves it in place, and ends with the
  exception that \<^verbatim>\<open>cli_error\<close> raises for page 2; nothing after page 2 is pulled.  For JSON
  output the stream is the list of responses; for delimited output it is the record stream of
  the design over the pages.
\<close>

theorem partial_output_then_error:
  "(resp_ok p1 \<and> \<not> resp_ok p2 \<and> raised (json_loop [p1] start) = None \<longrightarrow>
      json_loop (p1 # p2 # rest) start
        = (json_loop [p1] start)\<lparr>pulled := 2, raised := Some (cli_error p2)\<rparr>)
   \<and> (page_ok q1 \<and> page_has_next q1 \<and> \<not> page_ok q2
        \<and> raised (delimited repr format (page_data q1, None) start) = None
        \<and> (page_data q1 = [] \<or> hd (page_data q1) \<noteq> []) \<longrightarrow>
      delimited repr format (record_stream (q1 # q2 # others)) start
        = (delimited repr format (page_data q1, None) start)
            \<lparr>raised := Some (cli_error (page_response q2))\<rparr>)"
proof (intro conjI impI)
  assume a: "resp_ok p1 \<and> \<not> resp_ok p2 \<and> raised (json_loop [p1] start) = None"
  then have one: "raised (json_loop [p1] start) = None" and p2: "\<not> resp_ok p2"
    by blast+
  have p0: "pulled start = 0"
    by (simp add: start_def)
  have pl: "Suc (pulled (json_loop [p1] start)) = 2"
    by (simp only: json_loop_pulled_one [OF one] p0 numeral_2_eq_2)
  have "json_loop (p1 # p2 # rest) start = json_loop (p2 # rest) (json_loop [p1] start)"
    by (rule json_loop_one [OF one])
  also have "\<dots> = (json_loop [p1] start)
      \<lparr>pulled := Suc (pulled (json_loop [p1] start)), raised := Some (cli_error p2)\<rparr>"
    by (rule json_loop_error_page [OF p2])
  finally show "json_loop (p1 # p2 # rest) start
        = (json_loop [p1] start)\<lparr>pulled := 2, raised := Some (cli_error p2)\<rparr>"
    by (simp only: pl)
next
  assume a: "page_ok q1 \<and> page_has_next q1 \<and> \<not> page_ok q2
        \<and> raised (delimited repr format (page_data q1, None) start) = None
        \<and> (page_data q1 = [] \<or> hd (page_data q1) \<noteq> [])"
  then have s: "record_stream (q1 # q2 # others) = (page_data q1, Some (page_response q2))"
    by simp
  from a have "raised (delimited repr format (page_data q1, None) start) = None"
    and "page_data q1 = [] \<or> hd (page_data q1) \<noteq> []"
    by blast+
  from delimited_ending [OF this] show
    "delimited repr format (record_stream (q1 # q2 # others)) start
        = (delimited repr format (page_data q1, None) start)
            \<lparr>raised := Some (cli_error (page_response q2))\<rparr>"
    unfolding s .
qed

theorem partial_output_then_error_witness:
  "json_loop [first_page, bad_gateway] start
     = (json_loop [first_page] start)\<lparr>pulled := 2, raised := Some (cli_error bad_gateway)\<rparr>
   \<and> delimited (\<lambda>v. []) (Some CSV) (record_stream [first_records_page, failed_page]) start
     = (delimited (\<lambda>v. []) (Some CSV) (page_data first_records_page, None) start)
         \<lparr>raised := Some (cli_error (page_response failed_page))\<rparr>"
proof -
  have a: "resp_ok first_page \<and> \<not> resp_ok bad_gateway
      \<and> raised (json_loop [first_page] start) = None"
    by code_simp
  have b: "page_ok first_records_page \<and> page_has_next first_records_page
      \<and> \<not> page_ok failed_page
      \<and> raised (delimited (\<lambda>v. []) (Some CSV) (page_data first_records_page, None) start) = None
      \<and> (page_data first_records_page = [] \<or> hd (page_data first_records_page) \<noteq> [])"
    by code_simp
  from partial_output_then_error
         [of first_page bad_gateway "[]" first_records_page failed_page "\<lambda>v. []" "Some CSV" "[]"]
       a b
  show ?thesis
    by blast
qed

text \<open>
  Claim C4 as stated fails: a successful first page with an empty array and a next page does
  not pass the check on the end of its text, so the JSON output ends with a plain
  \<^verbatim>\<open>Exception\<close> at page 1; page 2 is never pulled and its error is never reported.
\<close>

theorem partial_output_then_error_counterexample:
  "resp_ok empty_first_page \<and> \<not> resp_ok bad_gateway
   \<and> json_loop [empty_first_page, bad_gateway] start
       = \<lparr>stdout = [], pulled = 1,
          raised = Some (PyException ''Response JSON has invalid end character(s).'')\<rparr>
   \<and> cli_error bad_gateway = ClickException (JString ''Bad Gateway'')"
  by code_simp

end
